theory Spec2Isabelle
  imports Main "HOL-Library.List_Lexorder"
begin

section \<open>Python strings\<close>

text \<open>
  A Python \<open>str\<close> is a sequence of Unicode code points, so a string is a list of
  code points and a character is its code point. \<open>lit\<close> embeds an ASCII literal.
\<close>

type_synonym pystr = "nat list"

definition lit :: "string \<Rightarrow> pystr" where
  "lit s = map of_char s"

text \<open>
  \<open>str.isspace\<close> on one character, which is also the class \<open>\s\<close> of \<open>re\<close> on
  \<open>str\<close> patterns and the set \<open>str.strip()\<close> and \<open>str.split()\<close> remove: the
  code points U+0009..U+000D, U+001C..U+0020, U+0085, U+00A0, U+1680,
  U+2000..U+200A, U+2028, U+2029, U+202F, U+205F and U+3000.
\<close>

definition isspace :: "nat \<Rightarrow> bool" where
  "isspace c =
     ((9 \<le> c \<and> c \<le> 13) \<or> (28 \<le> c \<and> c \<le> 32) \<or> c = 133 \<or> c = 160 \<or> c = 5760
      \<or> (8192 \<le> c \<and> c \<le> 8202) \<or> c = 8232 \<or> c = 8233 \<or> c = 8239 \<or> c = 8287
      \<or> c = 12288)"

text \<open>\<open>s.strip()\<close>: leading and trailing whitespace removed.\<close>

definition strip :: "pystr \<Rightarrow> pystr" where
  "strip s = rev (dropWhile isspace (rev (dropWhile isspace s)))"

text \<open>\<open>sep.join(xs)\<close>.\<close>

fun join :: "pystr \<Rightarrow> pystr list \<Rightarrow> pystr" where
  "join sep [] = []"
| "join sep [x] = x"
| "join sep (x # y # ys) = x @ sep @ join sep (y # ys)"

text \<open>
  \<open>s.split()\<close> without arguments: one left-to-right scan that cuts at every run
  of whitespace and yields no empty word. \<open>cur\<close> is the word being read.
\<close>

fun split_scan :: "pystr \<Rightarrow> pystr \<Rightarrow> pystr list" where
  "split_scan cur [] = (if cur = [] then [] else [cur])"
| "split_scan cur (c # cs) =
     (if isspace c then (if cur = [] then split_scan [] cs else cur # split_scan [] cs)
      else split_scan (cur @ [c]) cs)"

definition split :: "pystr \<Rightarrow> pystr list" where
  "split s = split_scan [] s"

text \<open>\<open>str(i)\<close> of a non-negative integer: its decimal digits.\<close>

fun str_nat :: "nat \<Rightarrow> pystr" where
  "str_nat n = (if n < 10 then [48 + n] else str_nat (n div 10) @ [48 + n mod 10])"

declare str_nat.simps [simp del]

section \<open>Question segmentation\<close>

text \<open>
  The loop of \<open>parse_html_file\<close> over the paragraphs of the first \<open>div\<close>. The
  arguments are the loop's two variables, \<open>current_question\<close> and \<open>questions\<close>, and
  the \<open>get_text()\<close> of the paragraphs still to visit; the result is \<open>questions\<close>
  after the loop and the final append.
\<close>

fun paragraph_loop :: "pystr \<Rightarrow> pystr list \<Rightarrow> pystr list \<Rightarrow> pystr list" where
  "paragraph_loop current_question questions [] =
     (if strip current_question \<noteq> [] then questions @ [strip current_question]
      else questions)"
| "paragraph_loop current_question questions (p # paragraphs) =
     (let text = strip p in
      if text = [] \<or> text = [160] then
        (if strip current_question \<noteq> []
         then paragraph_loop [] (questions @ [strip current_question]) paragraphs
         else paragraph_loop current_question questions paragraphs)
      else if current_question \<noteq> []
        then paragraph_loop (current_question @ lit '' '' @ text) questions paragraphs
        else paragraph_loop text questions paragraphs)"

text \<open>
  \<open>content_div = soup.find('div')\<close>: \<open>None\<close> when the document has no \<open>div\<close>,
  otherwise the texts of \<open>content_div.find_all('p')\<close> in document order.
\<close>

definition extract_questions :: "pystr list option \<Rightarrow> pystr list" where
  "extract_questions content_div =
     (case content_div of
        None \<Rightarrow> []
      | Some paragraphs \<Rightarrow> paragraph_loop [] [] paragraphs)"

text \<open>
  The segmentation as the specification words it: a step on the pair of
  accumulator and questions for each paragraph, then the final push.
\<close>

definition is_delimiter :: "pystr \<Rightarrow> bool" where
  "is_delimiter t = (t = [] \<or> t = [160])"

definition spec_step :: "pystr \<times> pystr list \<Rightarrow> pystr \<Rightarrow> pystr \<times> pystr list" where
  "spec_step st p =
     (let acc = fst st; qs = snd st; t = strip p in
      if is_delimiter t then
        (if strip acc = [] then (acc, qs) else ([], qs @ [strip acc]))
      else ((if acc = [] then t else acc @ [32] @ t), qs))"

definition spec_finish :: "pystr \<times> pystr list \<Rightarrow> pystr list" where
  "spec_finish st = (if strip (fst st) = [] then snd st else snd st @ [strip (fst st)])"

definition spec_questions :: "pystr list \<Rightarrow> pystr list" where
  "spec_questions ps = spec_finish (foldl spec_step ([], []) ps)"

section \<open>The name pattern\<close>

text \<open>
  \<open>re.search(r'Questions\s+\d+/\d+:\s*(.+)', text)\<close> is a call into Python's
  \<open>re\<close>, a backtracking matcher. The pattern is a sequence of literals and of
  greedy repetitions of one character class, the last of them inside group 1, so the
  matcher is modelled for such sequences: each atom offers the lengths it can match
  at the head of the text, longest first, and the matches of a sequence are listed in
  the order in which backtracking finds them. The match returned is the first one.
\<close>

datatype charclass = Space | Digit | Dot

text \<open>
  \<open>\d\<close> on a \<open>str\<close> pattern is the Unicode category Nd: blocks of ten digits
  starting at the code points below, and U+1D7CE..U+1D7FF (Unicode 14.0, the
  table of CPython 3.11).
\<close>

definition decimal_blocks :: "nat list" where
  "decimal_blocks =
     [0x30, 0x660, 0x6F0, 0x7C0, 0x966, 0x9E6, 0xA66, 0xAE6, 0xB66, 0xBE6, 0xC66, 0xCE6,
      0xD66, 0xDE6, 0xE50, 0xED0, 0xF20, 0x1040, 0x1090, 0x17E0, 0x1810, 0x1946, 0x19D0,
      0x1A80, 0x1A90, 0x1B50, 0x1BB0, 0x1C40, 0x1C50, 0xA620, 0xA8D0, 0xA900, 0xA9D0,
      0xA9F0, 0xAA50, 0xABF0, 0xFF10, 0x104A0, 0x10D30, 0x11066, 0x110F0, 0x11136,
      0x111D0, 0x112F0, 0x11450, 0x114D0, 0x11650, 0x116C0, 0x11730, 0x118E0, 0x11950,
      0x11C50, 0x11D50, 0x11DA0, 0x16A60, 0x16AC0, 0x16B50, 0x1E140, 0x1E2F0, 0x1E950,
      0x1FBF0]"

definition isdecimal :: "nat \<Rightarrow> bool" where
  "isdecimal c =
     (list_ex (\<lambda>b. b \<le> c \<and> c < b + 10) decimal_blocks \<or> (0x1D7CE \<le> c \<and> c \<le> 0x1D7FF))"

text \<open>\<open>.\<close> without \<open>re.DOTALL\<close> is every character but the newline.\<close>

fun in_class :: "charclass \<Rightarrow> nat \<Rightarrow> bool" where
  "in_class Space c = isspace c"
| "in_class Digit c = isdecimal c"
| "in_class Dot c = (c \<noteq> 10)"

datatype atom = Lit nat | Plus charclass | Star charclass | Group atom

text \<open>The lengths a greedy repetition tries: from the longest run down to \<open>lo\<close>.\<close>

primrec countdown :: "nat \<Rightarrow> nat \<Rightarrow> nat list" where
  "countdown lo 0 = (if lo = 0 then [0] else [])"
| "countdown lo (Suc n) = (if lo \<le> Suc n then Suc n # countdown lo n else [])"

fun widths :: "atom \<Rightarrow> pystr \<Rightarrow> nat list" where
  "widths (Lit c) s = (case s of [] \<Rightarrow> [] | x # _ \<Rightarrow> if x = c then [1] else [])"
| "widths (Plus k) s = countdown 1 (length (takeWhile (in_class k) s))"
| "widths (Star k) s = countdown 0 (length (takeWhile (in_class k) s))"
| "widths (Group a) s = widths a s"

text \<open>What an atom that matched the text \<open>m\<close> adds to the groups of the match.\<close>

fun captures :: "atom \<Rightarrow> pystr \<Rightarrow> pystr list" where
  "captures (Group a) m = [m]"
| "captures a m = []"

text \<open>
  All matches of a sequence of atoms at the head of \<open>s\<close>, each given by its groups,
  in backtracking order. A match need not reach the end of \<open>s\<close>.
\<close>

fun matches :: "atom list \<Rightarrow> pystr \<Rightarrow> pystr list list" where
  "matches [] s = [[]]"
| "matches (a # as) s =
     concat (map (\<lambda>n. map (\<lambda>gs. captures a (take n s) @ gs) (matches as (drop n s)))
                 (widths a s))"

definition re_match :: "atom list \<Rightarrow> pystr \<Rightarrow> pystr list option" where
  "re_match p s = (case matches p s of [] \<Rightarrow> None | gs # _ \<Rightarrow> Some gs)"

text \<open>\<open>re.search\<close>: the match at the leftmost position that has one.\<close>

fun re_search :: "atom list \<Rightarrow> pystr \<Rightarrow> pystr list option" where
  "re_search p [] = re_match p []"
| "re_search p (c # cs) =
     (case re_match p (c # cs) of None \<Rightarrow> re_search p cs | Some gs \<Rightarrow> Some gs)"

definition name_pattern :: "atom list" where
  "name_pattern =
     map Lit (lit ''Questions'') @
     [Plus Space, Plus Digit, Lit 47, Plus Digit, Lit 58, Star Space, Group (Plus Dot)]"

text \<open>
  \<open>match = re.search(...)\<close> followed by \<open>match.group(1)\<close>: \<open>None\<close> when there is
  no match, otherwise the text of group 1. (Every match of the pattern has its one
  group, see \<open>name_pattern_groups\<close>.)
\<close>

definition name_search :: "pystr \<Rightarrow> pystr option" where
  "name_search text =
     (case re_search name_pattern text of
        None \<Rightarrow> None
      | Some [] \<Rightarrow> None
      | Some (g # _) \<Rightarrow> Some g)"

section \<open>The document parser\<close>

text \<open>
  What \<open>parse_html_file\<close> reads off the \<open>BeautifulSoup\<close> tree: the
  \<open>get_text()\<close> of \<open>soup.find('title')\<close> and of \<open>soup.find('h1')\<close> (\<open>None\<close> when
  the tag is absent; a tag object is always true in Python), and the texts of the
  paragraphs of \<open>soup.find('div')\<close>.
\<close>

record document =
  title :: "pystr option"
  h1 :: "pystr option"
  content_div :: "pystr list option"

record parsed =
  student_name :: pystr
  questions :: "pystr list"
  file_path :: pystr

definition unknown_student :: pystr where
  "unknown_student = lit ''Unknown Student''"

text \<open>
  One search of the pattern in a tag; the variable \<open>student_name\<close> of the source
  is \<open>name\<close> here, and it is kept when the tag is absent or nothing matches.
\<close>

definition name_from :: "pystr option \<Rightarrow> pystr \<Rightarrow> pystr" where
  "name_from tag name =
     (case tag of
        None \<Rightarrow> name
      | Some t \<Rightarrow>
          (case name_search (strip t) of
             None \<Rightarrow> name
           | Some g \<Rightarrow> strip g))"

definition extract_name :: "document \<Rightarrow> pystr" where
  "extract_name doc =
     (let name = name_from (title doc) unknown_student in
      if name = unknown_student then name_from (h1 doc) name
      else name)"

text \<open>
  The exceptions of the \<open>try\<close> block come from opening, reading and decoding the
  file and from building the tree; all are subclasses of \<open>Exception\<close>. The file
  system and \<open>BeautifulSoup\<close> are the parameter \<open>load\<close>, which gives for a path the
  exception raised or the document read. \<open>exn_str\<close> is \<open>str(e)\<close>, the message the
  f-string of the handler prints.
\<close>

datatype exn =
  OSError pystr | UnicodeDecodeError pystr | ParserError pystr | UnicodeEncodeError pystr

fun exn_str :: "exn \<Rightarrow> pystr" where
  "exn_str (OSError m) = m"
| "exn_str (UnicodeDecodeError m) = m"
| "exn_str (ParserError m) = m"
| "exn_str (UnicodeEncodeError m) = m"

type_synonym loader = "pystr \<Rightarrow> exn + document"

text \<open>
  \<open>print(line)\<close> writes one line to standard output, or raises: \<open>UnicodeEncodeError\<close>
  when the encoding of the stream has no code for a character of the line,
  \<open>OSError\<close> when the stream is closed or full. The console is a parameter that gives,
  from the lines written so far and the line to write, the exception raised, if any;
  the state is the list of lines written.
\<close>

type_synonym console = "pystr list \<Rightarrow> pystr \<Rightarrow> exn option"

definition print :: "console \<Rightarrow> pystr \<Rightarrow> pystr list \<Rightarrow> exn + pystr list" where
  "print con line out = (case con out line of Some e \<Rightarrow> Inl e | None \<Rightarrow> Inr (out @ [line]))"

text \<open>The line of the handler, \<open>f"Error parsing {file_path}: {e}"\<close>.\<close>

definition error_line :: "pystr \<Rightarrow> exn \<Rightarrow> pystr" where
  "error_line path e = lit ''Error parsing '' @ path @ lit '': '' @ exn_str e"

text \<open>
  \<open>parse_html_file\<close>: the record built at the end of the \<open>try\<close> block, or, when the
  block raised, the \<open>print\<close> of the handler followed by the record of the failure. An
  exception of that \<open>print\<close> is raised inside the handler and leaves the function.
  The result is the exception that leaves the function, or the record returned and
  the lines on the console.
\<close>

definition parse_html_file ::
  "console \<Rightarrow> loader \<Rightarrow> pystr \<Rightarrow> pystr list \<Rightarrow> exn + (parsed \<times> pystr list)" where
  "parse_html_file con load path out =
     (case load path of
        Inr doc \<Rightarrow>
          Inr (\<lparr>student_name = extract_name doc,
                questions = extract_questions (content_div doc),
                file_path = path\<rparr>, out)
      | Inl e \<Rightarrow>
          (case print con (error_line path e) out of
             Inl e' \<Rightarrow> Inl e'
           | Inr out' \<Rightarrow>
               Inr (\<lparr>student_name = lit ''Error parsing file'',
                     questions = [],
                     file_path = path\<rparr>, out')))"

section \<open>The batch runner\<close>




section \<open>The report formatter\<close>

text \<open>The inner loop of \<open>format_output\<close>: \<open>enumerate(questions, 1)\<close> with its counter.\<close>

fun question_loop :: "nat \<Rightarrow> pystr list \<Rightarrow> pystr list \<Rightarrow> pystr list" where
  "question_loop i [] output = output"
| "question_loop i (question # rest) output =
     (let clean_question = join (lit '' '') (split question) in
      question_loop (i + 1) rest
        (output @ [lit ''    - Question '' @ str_nat i @ lit '': '' @ clean_question]))"

fun result_loop :: "parsed list \<Rightarrow> pystr list \<Rightarrow> pystr list" where
  "result_loop [] output = output"
| "result_loop (result # results) output =
     result_loop results
       (question_loop 1 (questions result) (output @ [lit ''- '' @ student_name result])
        @ [[]])"

definition format_output :: "parsed list \<Rightarrow> pystr" where
  "format_output results = join [10] (result_loop results [])"

text \<open>
  The report as the specification words it. Normalisation first trims, then
  replaces every run of whitespace by one space.
\<close>

function collapse :: "pystr \<Rightarrow> pystr" where
  "collapse [] = []"
| "collapse (c # cs) =
     (if isspace c then 32 # collapse (dropWhile isspace cs) else c # collapse cs)"
  by pat_completeness auto
termination
  by (relation "measure length") (auto simp: le_imp_less_Suc length_dropWhile_le)

definition spec_normalize :: "pystr \<Rightarrow> pystr" where
  "spec_normalize q = collapse (strip q)"

definition spec_question_line :: "nat \<Rightarrow> pystr \<Rightarrow> pystr" where
  "spec_question_line i q = lit ''    - Question '' @ str_nat i @ lit '': '' @ spec_normalize q"

definition spec_block :: "parsed \<Rightarrow> pystr list" where
  "spec_block d =
     [lit ''- '' @ student_name d]
     @ map (\<lambda>k. spec_question_line (Suc k) (questions d ! k)) [0..<length (questions d)]
     @ [[]]"

definition spec_format :: "parsed list \<Rightarrow> pystr" where
  "spec_format ds = join [10] (concat (map spec_block ds))"

section \<open>Auxiliary notions\<close>

text \<open>\<open>s.rstrip()\<close>, the second half of \<open>strip\<close>.\<close>

definition rstrip :: "pystr \<Rightarrow> pystr" where
  "rstrip s = rev (dropWhile isspace (rev s))"

text \<open>A text that does not end in whitespace, as every result of \<open>strip\<close>.\<close>

definition right_stripped :: "pystr \<Rightarrow> bool" where
  "right_stripped s = (s = [] \<or> \<not> isspace (last s))"

text \<open>The pattern up to the colon, and the part \<open>\s*(.+)\<close> that reads the label.\<close>

definition name_prefix :: "atom list" where
  "name_prefix =
     map Lit (lit ''Questions'') @ [Plus Space, Plus Digit, Lit 47, Plus Digit, Lit 58]"

definition label_part :: "atom list" where
  "label_part = [Star Space, Group (Plus Dot)]"

text \<open>
  Matching without backtracking: every atom takes its longest match. For a sequence
  in which no repetition can give a character back to the atom that follows it
  (\<open>separated\<close>), this is what the backtracking matcher does (\<open>matches_run\<close>).
\<close>

fun greedy :: "atom \<Rightarrow> pystr \<Rightarrow> nat option" where
  "greedy (Lit c) s = (case s of [] \<Rightarrow> None | x # _ \<Rightarrow> if x = c then Some 1 else None)"
| "greedy (Plus k) s =
     (if takeWhile (in_class k) s = [] then None else Some (length (takeWhile (in_class k) s)))"
| "greedy (Star k) s = Some (length (takeWhile (in_class k) s))"
| "greedy (Group a) s = greedy a s"

fun run :: "atom list \<Rightarrow> pystr \<Rightarrow> pystr option" where
  "run [] s = Some s"
| "run (a # as) s = (case greedy a s of None \<Rightarrow> None | Some n \<Rightarrow> run as (drop n s))"

fun covers :: "atom \<Rightarrow> nat \<Rightarrow> bool" where
  "covers (Lit c) x = (x = c)"
| "covers (Plus k) x = in_class k x"
| "covers (Star k) x = in_class k x"
| "covers (Group a) x = covers a x"

text \<open>
  Whitespace and decimal digits have no character in common (\<open>disjoint_classes\<close>); an
  atom rejects a class when it cannot start at a character of that class.
\<close>

fun disjoint :: "charclass \<Rightarrow> charclass \<Rightarrow> bool" where
  "disjoint Space Digit = True"
| "disjoint Digit Space = True"
| "disjoint k k' = False"

fun rejects :: "atom \<Rightarrow> charclass \<Rightarrow> bool" where
  "rejects (Lit c) k = (\<not> in_class k c)"
| "rejects (Plus k') k = disjoint k k'"
| "rejects (Star k') k = False"
| "rejects (Group a) k = False"

fun separated :: "atom list \<Rightarrow> bool" where
  "separated [] = True"
| "separated [a] = (case a of Lit c \<Rightarrow> True | _ \<Rightarrow> False)"
| "separated (a # b # bs) =
     ((case a of Lit c \<Rightarrow> True | Plus k \<Rightarrow> rejects b k | _ \<Rightarrow> False) \<and> separated (b # bs))"

text \<open>
  The record \<open>parse_html_file\<close> returns for a path when it returns
  (\<open>parse_html_file_returns\<close>); it does not depend on the console.
\<close>

definition parsed_record :: "loader \<Rightarrow> pystr \<Rightarrow> parsed" where
  "parsed_record load path =
     (case load path of
        Inr doc \<Rightarrow>
          \<lparr>student_name = extract_name doc,
           questions = extract_questions (content_div doc),
           file_path = path\<rparr>
      | Inl e \<Rightarrow>
          \<lparr>student_name = lit ''Error parsing file'', questions = [], file_path = path\<rparr>)"

section \<open>Example inputs\<close>

text \<open>
  A console that accepts every line, and one whose stream is encoded in ASCII and
  raises on a line with a character beyond U+007F.
\<close>

definition accepting_console :: console where
  "accepting_console out line = None"


text \<open>
  A directory \<open>docs\<close> with one unreadable file, \<open>docs/b.html\<close>; every other path holds
  the same small document.
\<close>

definition demo_doc :: document where
  "demo_doc =
     \<lparr>title = Some (lit ''Questions 09/02: Jane Doe''), h1 = None,
      content_div = Some [lit ''Why?'']\<rparr>"

definition demo_load :: loader where
  "demo_load p =
     (if p = lit ''docs/b.html'' then Inl (OSError (lit ''unreadable'')) else Inr demo_doc)"


text \<open>
  A document whose title carries the label "Unknown Student" and whose heading
  carries another one.
\<close>

definition sentinel_title_doc :: document where
  "sentinel_title_doc =
     \<lparr>title = Some (lit ''Questions 09/02: Unknown Student''),
      h1 = Some (lit ''Questions 09/02: Jane Doe''),
      content_div = None\<rparr>"

text \<open>
  Documents with the title "Questions 09/02: ", in which the pattern matches with the
  label " ": one with a heading that carries a label, one without a heading; and a
  document with that text as its heading and no title.
\<close>

definition blank_title_doc :: document where
  "blank_title_doc =
     \<lparr>title = Some (lit ''Questions 09/02: ''),
      h1 = Some (lit ''Questions 09/02: Bob''),
      content_div = None\<rparr>"

definition blank_title_only_doc :: document where
  "blank_title_only_doc =
     \<lparr>title = Some (lit ''Questions 09/02: ''), h1 = None, content_div = None\<rparr>"

definition blank_h1_doc :: document where
  "blank_h1_doc =
     \<lparr>title = None, h1 = Some (lit ''Questions 09/02: ''), content_div = None\<rparr>"

text \<open>A document without a \<open>div\<close>, and one whose \<open>div\<close> has no paragraph.\<close>

definition no_div_doc :: document where
  "no_div_doc =
     \<lparr>title = Some (lit ''Questions 09/02: Jane Doe''), h1 = None, content_div = None\<rparr>"

definition empty_div_doc :: document where
  "empty_div_doc =
     \<lparr>title = Some (lit ''Questions 09/02: Jane Doe''), h1 = None, content_div = Some []\<rparr>"

definition empty_div_load :: loader where
  "empty_div_load p = Inr empty_div_doc"

definition demo_result :: parsed where
  "demo_result =
     \<lparr>student_name = lit ''Jane Doe'',
      questions = [lit ''line one'' @ [10] @ lit ''   line two''],
      file_path = lit ''a.html''\<rparr>"

text \<open>Two batch results that differ in the paths only.\<close>

definition batch_here :: "parsed list" where
  "batch_here =
     [\<lparr>student_name = lit ''Ann'', questions = [lit ''Why?''], file_path = lit ''a.html''\<rparr>]"

definition batch_there :: "parsed list" where
  "batch_there =
     [\<lparr>student_name = lit ''Ann'', questions = [lit ''Why?''], file_path = lit ''x/a.html''\<rparr>]"

section \<open>Properties of the segmentation\<close>

lemma lit_space: "lit '' '' = [32]"
  by (simp add: lit_def)

lemma paragraph_loop_spec:
  "paragraph_loop acc qs ps = spec_finish (foldl spec_step (acc, qs) ps)"
proof (induction ps arbitrary: acc qs)
  case Nil
  show ?case by (simp add: spec_finish_def)
next
  case (Cons p ps)
  show ?case
    by (simp add: Cons.IH spec_step_def is_delimiter_def lit_space Let_def)
qed

lemma paragraph_loop_nonempty:
  "[] \<notin> set qs \<Longrightarrow> [] \<notin> set (paragraph_loop acc qs ps)"
  by (induction acc qs ps rule: paragraph_loop.induct) (auto simp: Let_def)

text \<open>
  C1. The questions the parser reads from the paragraphs of the first \<open>div\<close> are those of
  the delimiter-accumulator algorithm of the specification, for every sequence of
  paragraph texts; and the paragraphs "Q1 line one", "", "Q2 part A", "Q2 part B", ""
  give exactly the two questions "Q1 line one" and "Q2 part A Q2 part B".
\<close>

theorem extract_questions_refines_spec:
  "extract_questions (Some ps) = spec_questions ps \<and>
   extract_questions
     (Some [lit ''Q1 line one'', [], lit ''Q2 part A'', lit ''Q2 part B'', []])
     = [lit ''Q1 line one'', lit ''Q2 part A Q2 part B'']"
proof
  show "extract_questions (Some ps) = spec_questions ps"
    by (simp add: extract_questions_def spec_questions_def paragraph_loop_spec)
  show "extract_questions
     (Some [lit ''Q1 line one'', [], lit ''Q2 part A'', lit ''Q2 part B'', []])
     = [lit ''Q1 line one'', lit ''Q2 part A Q2 part B'']"
    by (simp add: extract_questions_def lit_def strip_def isspace_def Let_def)
qed


section \<open>Properties of the name pattern\<close>

lemma name_pattern_split: "name_pattern = name_prefix @ label_part"
  by (simp add: name_pattern_def name_prefix_def label_part_def)

lemma name_prefix_no_group: "a \<in> set name_prefix \<Longrightarrow> captures a m = []"
  by (auto simp: name_prefix_def)

lemma concat_map_first:
  "concat (map f ns) = x # rest \<Longrightarrow> \<exists>n\<in>set ns. \<exists>r. f n = x # r"
  by (induction ns) (auto simp: append_eq_Cons_conv)

lemma matches_first_split:
  "matches (pre @ post) s = gs # rest \<Longrightarrow> (\<And>a m. a \<in> set pre \<Longrightarrow> captures a m = []) \<Longrightarrow>
   \<exists>k rest'. matches post (drop k s) = gs # rest'"
proof (induction pre arbitrary: s rest)
  case Nil
  then show ?case by (metis append_Nil drop0)
next
  case (Cons a pre)
  have "concat (map (\<lambda>n. map (\<lambda>g. captures a (take n s) @ g) (matches (pre @ post) (drop n s)))
          (widths a s)) = gs # rest"
    using Cons.prems(1) by simp
  from concat_map_first [OF this] obtain n r where
    "map (\<lambda>g. captures a (take n s) @ g) (matches (pre @ post) (drop n s)) = gs # r"
    by meson
  moreover have "captures a (take n s) = []" using Cons.prems(2) by simp
  ultimately obtain r' where "matches (pre @ post) (drop n s) = gs # r'"
    by (auto simp: map_eq_Cons_conv)
  from Cons.IH [OF this] Cons.prems(2) obtain k rest' where
    "matches post (drop k (drop n s)) = gs # rest'" by auto
  then show ?case by (metis drop_drop)
qed

lemma re_search_first:
  "re_search p s = Some gs \<Longrightarrow> \<exists>k rest. matches p (drop k s) = gs # rest"
proof (induction s)
  case Nil
  then show ?case by (auto simp: re_match_def split: list.splits)
next
  case (Cons c cs)
  show ?case
  proof (cases "matches p (c # cs)")
    case Nil
    with Cons.prems have "re_search p cs = Some gs" by (simp add: re_match_def)
    from Cons.IH [OF this] obtain k rest where "matches p (drop k cs) = gs # rest" by auto
    then have "matches p (drop (Suc k) (c # cs)) = gs # rest" by simp
    then show ?thesis by blast
  next
    case (Cons g r)
    with Cons.prems have "matches p (drop 0 (c # cs)) = gs # r" by (simp add: re_match_def)
    then show ?thesis by blast
  qed
qed

lemma countdown_first: "lo \<le> n \<Longrightarrow> \<exists>r. countdown lo n = n # r"
  by (cases n) auto

lemma isspace_newline: "isspace 10"
  by (simp add: isspace_def)

lemma label_part_leading:
  assumes "dropWhile isspace s \<noteq> []"
  shows "\<exists>g rest. matches label_part s = [g] # rest \<and> g \<noteq> [] \<and> \<not> isspace (hd g)"
proof -
  define L where "L = length (takeWhile isspace s)"
  define r where "r = dropWhile isspace s"
  have r_drop: "drop L s = r"
    by (simp add: L_def r_def dropWhile_eq_drop)
  obtain post where cd: "countdown 0 L = L # post"
    using countdown_first [of 0 L] by auto
  from assms have ne: "r \<noteq> []" by (simp add: r_def)
  then have hd_r: "\<not> isspace (hd r)"
    unfolding r_def using hd_dropWhile by blast
  then have "hd r \<noteq> 10" using isspace_newline by auto
  define d where "d = length (takeWhile (\<lambda>c. c \<noteq> 10) r)"
  from ne \<open>hd r \<noteq> 10\<close> have "1 \<le> d"
    by (cases r) (auto simp: d_def)
  then obtain post' where cd': "countdown 1 d = d # post'"
    using countdown_first [of 1 d] by (auto simp del: One_nat_def)
  have "take d r \<noteq> []" using \<open>1 \<le> d\<close> ne by auto
  moreover have "hd (take d r) = hd r" using \<open>1 \<le> d\<close> ne by (cases r; cases d) auto
  moreover have "\<exists>rest'. matches label_part s = [take d r] # rest'"
  proof -
    define F where
      "F = (\<lambda>n. map (\<lambda>w. [take w (drop n s)])
              (countdown 1 (length (takeWhile (\<lambda>c. c \<noteq> 10) (drop n s)))))"
    have sp: "in_class Space = isspace" and dt: "in_class Dot = (\<lambda>c. c \<noteq> 10)"
      by (rule ext, simp)+
    have "matches label_part s = concat (map F (countdown 0 L))"
      by (simp add: label_part_def sp dt L_def F_def comp_def)
    also have "\<dots> = F L @ concat (map F post)"
      by (simp add: cd)
    also have "F L = [take d r] # map (\<lambda>w. [take w r]) post'"
      unfolding F_def r_drop d_def [symmetric] cd' by simp
    finally show ?thesis by simp
  qed
  ultimately show ?thesis using hd_r by auto
qed

lemma label_part_first:
  assumes "matches label_part s = gs # rest" and "right_stripped s"
  shows "\<exists>g. gs = [g] \<and> g \<noteq> [] \<and> \<not> isspace (hd g)"
proof (cases "dropWhile isspace s = []")
  case True
  then have blank: "\<forall>c\<in>set s. isspace c" by simp
  have "s = []"
  proof (rule ccontr)
    assume "s \<noteq> []"
    then have "last s \<in> set s" by simp
    with blank have "isspace (last s)" by blast
    with assms(2) \<open>s \<noteq> []\<close> show False by (simp add: right_stripped_def)
  qed
  with assms(1) show ?thesis by (simp add: label_part_def)
next
  case False
  from label_part_leading [OF False] assms(1) show ?thesis by auto
qed

lemma right_stripped_strip: "right_stripped (strip t)"
proof (cases "strip t = []")
  case True then show ?thesis by (simp add: right_stripped_def)
next
  case False
  have "last (strip t) = hd (dropWhile isspace (rev (dropWhile isspace t)))"
    using False by (simp add: strip_def last_rev)
  moreover have "\<not> isspace (hd (dropWhile isspace (rev (dropWhile isspace t))))"
    using False hd_dropWhile [of isspace "rev (dropWhile isspace t)"] by (simp add: strip_def)
  ultimately show ?thesis by (simp add: right_stripped_def)
qed

text \<open>
  U+00A0 is whitespace for \<open>strip\<close>, so a trimmed text is never the lone non-breaking
  space that the paragraph loop compares it with: such a paragraph is already empty.
\<close>

lemma strip_not_nbsp: "strip p \<noteq> [160]"
  using right_stripped_strip [of p] by (auto simp: right_stripped_def isspace_def)

lemma right_stripped_drop: "right_stripped s \<Longrightarrow> right_stripped (drop k s)"
  by (auto simp: right_stripped_def)

lemma strip_nonblank: "g \<noteq> [] \<Longrightarrow> \<not> isspace (hd g) \<Longrightarrow> strip g \<noteq> []"
  by (cases g) (auto simp: strip_def)

lemma name_search_label:
  assumes "name_search (strip t) = Some g"
  shows "g \<noteq> [] \<and> \<not> isspace (hd g)"
proof -
  from assms obtain gs where s: "re_search name_pattern (strip t) = Some (g # gs)"
    by (auto simp: name_search_def split: option.splits list.splits)
  from re_search_first [OF s] obtain k rest where
    "matches (name_prefix @ label_part) (drop k (strip t)) = (g # gs) # rest"
    by (auto simp: name_pattern_split)
  from matches_first_split [OF this name_prefix_no_group] obtain k' rest' where
    m: "matches label_part (drop k' (drop k (strip t))) = (g # gs) # rest'" by blast
  have "right_stripped (drop k' (drop k (strip t)))"
    by (intro right_stripped_drop right_stripped_strip)
  from label_part_first [OF m this] show ?thesis by auto
qed

lemma name_from_nonempty: "name \<noteq> [] \<Longrightarrow> name_from tag name \<noteq> []"
  using name_search_label strip_nonblank
  by (auto simp: name_from_def split: option.splits)

lemma unknown_student_nonempty: "unknown_student \<noteq> []"
  by (simp add: unknown_student_def lit_def)

lemma extract_name_nonempty: "extract_name doc \<noteq> []"
  by (simp add: extract_name_def Let_def name_from_nonempty unknown_student_nonempty)

lemma name_pattern_groups:
  assumes "re_search name_pattern s = Some gs" shows "\<exists>g. gs = [g]"
proof -
  from re_search_first [OF assms] obtain k rest where
    "matches (name_prefix @ label_part) (drop k s) = gs # rest"
    by (auto simp: name_pattern_split)
  from matches_first_split [OF this name_prefix_no_group] obtain k' rest' where
    m: "matches label_part (drop k' (drop k s)) = gs # rest'" by blast
  have "gs \<in> set (matches label_part (drop k' (drop k s)))"
    unfolding m by (rule list.set_intros(1))
  then show ?thesis by (auto simp: label_part_def)
qed

text \<open>
  C2. Name extraction searches the title first and the first heading only when the title
  gave no name. Whether the title gave a name is decided by comparing the name with
  "Unknown Student", so on a document whose title matches the pattern with the label
  "Unknown Student" the heading is searched all the same, and the name returned is the
  label of the heading, not the label of the title.
\<close>

theorem sentinel_title_label_overridden:
  "name_search (strip (lit ''Questions 09/02: Unknown Student'')) = Some (lit ''Unknown Student'')
   \<and> extract_name sentinel_title_doc = lit ''Jane Doe''"
  by (simp add: sentinel_title_doc_def extract_name_def name_from_def unknown_student_def
        name_search_def name_pattern_def re_match_def lit_def strip_def isspace_def
        isdecimal_def decimal_blocks_def)

text \<open>
  Outside that case the priority is the one of the specification: a title whose
  label is not "Unknown Student" gives the name, and the heading is read otherwise.
\<close>

lemma extract_name_title:
  "title doc = Some t \<Longrightarrow> name_search (strip t) = Some g \<Longrightarrow> strip g \<noteq> unknown_student \<Longrightarrow>
   extract_name doc = strip g"
  by (simp add: extract_name_def name_from_def)

lemma extract_name_h1:
  "name_from (title doc) unknown_student = unknown_student \<Longrightarrow>
   extract_name doc = name_from (h1 doc) unknown_student"
  by (simp add: extract_name_def)

lemma extract_name_default:
  "name_from (title doc) unknown_student = unknown_student \<Longrightarrow>
   h1 doc = None \<or> (\<exists>h. h1 doc = Some h \<and> name_search (strip h) = None) \<Longrightarrow>
   extract_name doc = lit ''Unknown Student''"
  by (auto simp: extract_name_def name_from_def unknown_student_def)


lemma isdecimal_range:
  "isdecimal c \<Longrightarrow>
   (48 \<le> c \<and> c < 58) \<or> (1632 \<le> c \<and> c < 4250) \<or> (6112 \<le> c \<and> c < 7258) \<or> 42528 \<le> c"
  unfolding isdecimal_def decimal_blocks_def list_ex_Cons_iff list_ex_Nil_iff
  by (elim disjE conjE FalseE; simp)

lemma space_not_decimal: "isspace c \<Longrightarrow> \<not> isdecimal c"
  using isdecimal_range [of c] unfolding isspace_def by linarith

lemma not_decimal_punct: "\<not> isdecimal 47" "\<not> isdecimal 58" "\<not> isdecimal 81"
  using isdecimal_range [of 47] isdecimal_range [of 58] isdecimal_range [of 81] by auto

lemma disjoint_classes: "disjoint k k' \<Longrightarrow> in_class k c \<Longrightarrow> \<not> in_class k' c"
  using space_not_decimal [of c] by (cases k; cases k') auto

lemma concat_countdown:
  "(\<And>m. lo \<le> m \<Longrightarrow> m < n \<Longrightarrow> F m = []) \<Longrightarrow>
   concat (map F (countdown lo n)) = (if lo \<le> n then F n else [])"
proof (induction n)
  case 0
  show ?case by simp
next
  case (Suc n)
  have "concat (map F (countdown lo n)) = (if lo \<le> n then F n else [])"
    using Suc.prems by (intro Suc.IH) simp
  moreover have "lo \<le> n \<Longrightarrow> F n = []" using Suc.prems by simp
  ultimately show ?case by simp
qed

lemma rejects_no_match:
  "rejects b k \<Longrightarrow> s \<noteq> [] \<Longrightarrow> in_class k (hd s) \<Longrightarrow> matches (b # bs) s = []"
proof (cases b)
  case (Lit c)
  assume "rejects b k" "s \<noteq> []" "in_class k (hd s)"
  with Lit show ?thesis by (cases s) auto
next
  case (Plus k')
  assume "rejects b k" "s \<noteq> []" "in_class k (hd s)"
  with Plus have "takeWhile (in_class k') s = []"
    using disjoint_classes [of k k' "hd s"] by (cases s) auto
  with Plus show ?thesis by simp
qed auto

lemma map_append_Nil [simp]: "map ((@) []) xs = xs"
  by (induction xs) auto

lemma matches_Lit:
  "matches (Lit c # as) s = (case s of [] \<Rightarrow> [] | x # xs \<Rightarrow> if x = c then matches as xs else [])"
  by (cases s) auto

lemma matches_Plus:
  assumes "rejects b k"
  shows "matches (Plus k # b # bs) s =
     (if takeWhile (in_class k) s = [] then []
      else matches (b # bs) (dropWhile (in_class k) s))"
proof -
  define L where "L = length (takeWhile (in_class k) s)"
  define F where "F = (\<lambda>n. map (\<lambda>gs. captures (Plus k) (take n s) @ gs) (matches (b # bs) (drop n s)))"
  have "F m = []" if "1 \<le> m" "m < L" for m
  proof -
    have "m < length s" using that(2) length_takeWhile_le [of "in_class k" s] by (simp add: L_def)
    then have ne: "drop m s \<noteq> []" by simp
    have "hd (drop m s) = s ! m" using \<open>m < length s\<close> by (simp add: hd_drop_conv_nth)
    moreover have "in_class k (s ! m)"
      using that(2) unfolding L_def by (metis nth_length_takeWhile takeWhile_nth nth_mem set_takeWhileD)
    ultimately have "matches (b # bs) (drop m s) = []"
      using rejects_no_match [OF assms ne] by simp
    then show ?thesis by (simp add: F_def)
  qed
  then have c: "concat (map F (countdown 1 L)) = (if 1 \<le> L then F L else [])"
    by (intro concat_countdown) auto
  have m: "matches (Plus k # b # bs) s = concat (map F (countdown 1 L))"
    unfolding F_def L_def by (subst matches.simps(2)) (simp only: widths.simps)
  have f: "F L = matches (b # bs) (dropWhile (in_class k) s)"
    by (simp add: F_def L_def dropWhile_eq_drop del: matches.simps(2))
  show ?thesis
  proof (cases "takeWhile (in_class k) s = []")
    case True
    then have "L = 0" by (simp add: L_def)
    with True m c show ?thesis by (simp del: matches.simps(2))
  next
    case False
    then have "1 \<le> L" by (simp add: L_def Suc_le_eq)
    with False m c f show ?thesis by (simp del: matches.simps(2))
  qed
qed

lemma matches_run:
  "separated pre \<Longrightarrow>
   matches (pre @ post) s = (case run pre s of None \<Rightarrow> [] | Some s' \<Rightarrow> matches post s')"
proof (induction pre arbitrary: s rule: separated.induct)
  case 1
  show ?case by simp
next
  case (2 a)
  then obtain c where "a = Lit c" by (cases a) auto
  then show ?case
    by (cases s) (auto simp del: matches.simps(2) simp add: matches_Lit)
next
  case (3 a b bs)
  then have sep: "separated (b # bs)" by simp
  note IH = "3.IH" [OF sep]
  show ?case
  proof (cases a)
    case (Lit c)
    then show ?thesis
      using IH by (cases s) (auto simp del: matches.simps(2) simp add: matches_Lit)
  next
    case (Plus k)
    with "3.prems" have rej: "rejects b k" by simp
    have "matches ((a # b # bs) @ post) s =
        (if takeWhile (in_class k) s = [] then []
         else matches ((b # bs) @ post) (dropWhile (in_class k) s))"
      using matches_Plus [OF rej, of "bs @ post" s] Plus by simp
    then show ?thesis
      using IH Plus by (simp add: dropWhile_eq_drop del: matches.simps(2))
  next
    case (Star k)
    with "3.prems" show ?thesis by simp
  next
    case (Group g)
    with "3.prems" show ?thesis by simp
  qed
qed

lemma greedy_covers:
  "greedy a s = Some n \<Longrightarrow> n \<le> length s \<and> (\<forall>c\<in>set (take n s). covers a c)"
proof (induction a)
  case (Lit c)
  then show ?case by (cases s) (auto split: if_splits)
next
  case (Plus k)
  then show ?case
    by (auto split: if_splits simp: length_takeWhile_le takeWhile_eq_take [symmetric]
        dest: set_takeWhileD)
next
  case (Star k)
  then show ?case
    by (auto simp: length_takeWhile_le takeWhile_eq_take [symmetric] dest: set_takeWhileD)
next
  case (Group a)
  then show ?case by simp
qed

lemma run_consumes:
  "run pre s = Some s' \<Longrightarrow>
   \<exists>seg. s = seg @ s' \<and> (\<forall>c\<in>set seg. \<exists>a\<in>set pre. covers a c)"
proof (induction pre arbitrary: s)
  case Nil
  then show ?case by simp
next
  case (Cons a pre)
  from Cons.prems obtain n where g: "greedy a s = Some n" and r: "run pre (drop n s) = Some s'"
    by (auto split: option.splits)
  from Cons.IH [OF r] obtain seg where
    seg: "drop n s = seg @ s'" "\<forall>c\<in>set seg. \<exists>a\<in>set pre. covers a c" by blast
  from greedy_covers [OF g] have c: "\<forall>c\<in>set (take n s). covers a c" by simp
  have "s = (take n s @ seg) @ s'"
    using seg(1) by (metis append_take_drop_id append_assoc)
  moreover have "\<forall>c\<in>set (take n s @ seg). \<exists>b\<in>set (a # pre). covers b c"
    using c seg(2) by auto
  ultimately show ?case by blast
qed

lemma run_snoc_Lit:
  "run (pre @ [Lit c]) s = Some s' \<Longrightarrow> run pre s = Some (c # s')"
proof (induction pre arbitrary: s)
  case Nil
  then show ?case by (cases s) (auto split: if_splits)
next
  case (Cons a pre)
  then show ?case by (auto split: option.splits)
qed

lemma run_Plus:
  "run (Plus k # as) s =
     (if takeWhile (in_class k) s = [] then None else run as (dropWhile (in_class k) s))"
  by (simp add: dropWhile_eq_drop)

lemma run_needs_input:
  "separated (b # bs) \<Longrightarrow> run (b # bs) [] = None"
  by (cases b; cases bs) auto

lemma run_append:
  "separated pre \<Longrightarrow> run pre w = Some s' \<Longrightarrow> run pre (w @ x) = Some (s' @ x)"
proof (induction pre arbitrary: w rule: separated.induct)
  case 1
  then show ?case by simp
next
  case (2 a)
  then obtain c where "a = Lit c" by (cases a) auto
  with "2.prems" show ?case by (cases w) (auto split: if_splits)
next
  case (3 a b bs)
  then have sep: "separated (b # bs)" by simp
  note IH = "3.IH" [OF sep]
  show ?case
  proof (cases a)
    case (Lit c)
    with "3.prems" IH show ?thesis by (cases w) (auto split: if_splits)
  next
    case (Plus k)
    with "3.prems" have tw: "takeWhile (in_class k) w \<noteq> []"
      and r: "run (b # bs) (dropWhile (in_class k) w) = Some s'"
      by (auto split: if_splits simp: run_Plus simp del: run.simps(2))
    have "dropWhile (in_class k) w \<noteq> []"
    proof
      assume "dropWhile (in_class k) w = []"
      with r run_needs_input [OF sep] show False by (simp del: run.simps(2))
    qed
    then obtain y where y: "y \<in> set w" "\<not> in_class k y"
      by (auto simp: dropWhile_eq_Nil_conv)
    then have "takeWhile (in_class k) (w @ x) = takeWhile (in_class k) w"
      and "dropWhile (in_class k) (w @ x) = dropWhile (in_class k) w @ x"
      by (simp_all add: takeWhile_append1 dropWhile_append1)
    with tw IH [OF r] Plus show ?thesis
      by (simp add: run_Plus del: run.simps(2))
  next
    case (Star k)
    with "3.prems" show ?thesis by simp
  next
    case (Group g)
    with "3.prems" show ?thesis by simp
  qed
qed

lemma label_part_Nil: "matches label_part [] = []"
  by (simp add: label_part_def)

lemma separated_name_prefix: "separated name_prefix"
  by (simp add: name_prefix_def lit_def not_decimal_punct)

lemma matches_name_pattern:
  "matches name_pattern s =
     (case run name_prefix s of None \<Rightarrow> [] | Some s' \<Rightarrow> matches label_part s')"
  unfolding name_pattern_split by (rule matches_run [OF separated_name_prefix])

lemma name_prefix_consumes:
  assumes "run name_prefix s = Some s'"
  shows "\<exists>mid. s = 81 # mid @ 58 # s' \<and> 81 \<notin> set mid"
proof -
  define pre where
    "pre = map Lit (lit ''uestions'') @ [Plus Space, Plus Digit, Lit 47, Plus Digit]"
  have split: "name_prefix = Lit 81 # (pre @ [Lit 58])"
    by (simp add: name_prefix_def pre_def lit_def)
  from assms obtain s1 where s: "s = 81 # s1" and r: "run (pre @ [Lit 58]) s1 = Some s'"
    unfolding split by (cases s) (auto split: if_splits)
  from run_snoc_Lit [OF r] have "run pre s1 = Some (58 # s')" .
  from run_consumes [OF this] obtain mid where
    mid: "s1 = mid @ 58 # s'" "\<forall>c\<in>set mid. \<exists>a\<in>set pre. covers a c" by blast
  have "\<not> covers a 81" if "a \<in> set pre" for a
    using that by (auto simp: pre_def lit_def isspace_def not_decimal_punct)
  with mid(2) have "81 \<notin> set mid" by blast
  with s mid(1) show ?thesis by blast
qed

lemma re_search_leftmost:
  "re_search p t = Some gs \<Longrightarrow>
   \<exists>k rest. k \<le> length t \<and> matches p (drop k t) = gs # rest
     \<and> (\<forall>i<k. matches p (drop i t) = [])"
proof (induction t)
  case Nil
  then show ?case by (auto simp: re_match_def split: list.splits)
next
  case (Cons c cs)
  show ?case
  proof (cases "matches p (c # cs)")
    case Nil
    with Cons.prems have "re_search p cs = Some gs" by (simp add: re_match_def)
    from Cons.IH [OF this] obtain k rest where
      k: "k \<le> length cs" "matches p (drop k cs) = gs # rest"
         "\<forall>i<k. matches p (drop i cs) = []" by blast
    have "\<forall>i<Suc k. matches p (drop i (c # cs)) = []"
    proof (intro allI impI)
      fix i assume "i < Suc k"
      then show "matches p (drop i (c # cs)) = []"
        using Nil k(3) by (cases i) auto
    qed
    moreover have "matches p (drop (Suc k) (c # cs)) = gs # rest" using k(2) by simp
    moreover have "Suc k \<le> length (c # cs)" using k(1) by simp
    ultimately show ?thesis by blast
  next
    case (Cons g r)
    with Cons.prems have "matches p (drop 0 (c # cs)) = gs # r" by (simp add: re_match_def)
    then show ?thesis by blast
  qed
qed

lemma re_search_None:
  "(\<And>k. matches p (drop k t) = []) \<Longrightarrow> re_search p t = None"
proof (induction t)
  case Nil
  from Nil [of 0] show ?case by (simp add: re_match_def)
next
  case (Cons c cs)
  have "matches p (drop k cs) = []" for k using Cons.prems [of "Suc k"] by simp
  from Cons.IH [OF this] Cons.prems [of 0] show ?case by (simp add: re_match_def)
qed

lemma strip_append_blank:
  assumes "\<forall>c\<in>set b. isspace c" and "u \<noteq> []" and "\<not> isspace (last u)"
  shows "strip (u @ b) = dropWhile isspace u"
proof -
  have lu: "last u \<in> set u" using assms(2) by simp
  define v where "v = dropWhile isspace u"
  have v_ne: "v \<noteq> []" using lu assms(3) by (auto simp: v_def dropWhile_eq_Nil_conv)
  have "last v = last u"
    unfolding v_def using v_ne [unfolded v_def]
    by (metis append_Nil2 last_appendR takeWhile_dropWhile_id)
  have "dropWhile isspace (u @ b) = v @ b"
    unfolding v_def using lu assms(3) by (rule dropWhile_append1)
  then have "strip (u @ b) = rev (dropWhile isspace (rev b @ rev v))"
    by (simp add: strip_def)
  also have "dropWhile isspace (rev b @ rev v) = dropWhile isspace (rev v)"
    using assms(1) by (intro dropWhile_append2) simp
  also have "dropWhile isspace (rev v) = rev v"
    using v_ne \<open>last v = last u\<close> assms(3) by (cases "rev v") (auto simp: hd_rev [symmetric])
  finally show ?thesis by (simp add: v_def)
qed

lemma blank_label_no_trimmed_match:
  assumes "name_search t = Some g" and "strip g = []"
  shows "name_search (strip t) = None"
proof -
  from assms(1) obtain gs where "re_search name_pattern t = Some (g # gs)"
    by (auto simp: name_search_def split: option.splits list.splits)
  from re_search_leftmost [OF this] obtain k rest where
    k: "k \<le> length t" and mk: "matches name_pattern (drop k t) = (g # gs) # rest"
    and left: "\<forall>i<k. matches name_pattern (drop i t) = []" by blast
  from mk obtain s' where r: "run name_prefix (drop k t) = Some s'"
    and ml: "matches label_part s' = (g # gs) # rest"
    by (auto simp: matches_name_pattern split: option.splits)
  have blank: "dropWhile isspace s' = []"
  proof (rule ccontr)
    assume "dropWhile isspace s' \<noteq> []"
    from label_part_leading [OF this] ml have "g \<noteq> [] \<and> \<not> isspace (hd g)" by auto
    with strip_nonblank assms(2) show False by blast
  qed
  then have s'_blank: "\<forall>c\<in>set s'. isspace c" by (simp add: dropWhile_eq_Nil_conv)
  from name_prefix_consumes [OF r] obtain mid where
    d: "drop k t = 81 # mid @ 58 # s'" and nq: "81 \<notin> set mid" by blast
  define u where "u = take k t @ 81 # mid @ [58]"
  have t_eq: "t = u @ s'"
    using d by (simp add: u_def) (metis append_take_drop_id)
  have u_ne: "u \<noteq> []" and last_u: "last u = 58" by (simp_all add: u_def)
  have ns58: "\<not> isspace 58" by (simp add: isspace_def)
  have strip_t: "strip t = dropWhile isspace u"
    unfolding t_eq using s'_blank u_ne last_u ns58 by (intro strip_append_blank) simp_all
  have no_match: "matches name_pattern (drop i u) = []" for i
  proof (rule ccontr)
    assume "matches name_pattern (drop i u) \<noteq> []"
    then obtain s'' where r2: "run name_prefix (drop i u) = Some s''"
      and m2: "matches label_part s'' \<noteq> []"
      by (auto simp: matches_name_pattern split: option.splits)
    from m2 have s''_ne: "s'' \<noteq> []" using label_part_Nil by auto
    from name_prefix_consumes [OF r2] obtain mid2 where
      d2: "drop i u = 81 # mid2 @ 58 # s''" by blast
    then have i_lt: "i < length u" by (cases "i < length u") auto
    have "last (drop i u) = last s''" using d2 s''_ne by simp
    then have "last s'' = 58" using i_lt last_u by (simp add: last_drop)
    then have "58 \<in> set s''" using s''_ne last_in_set by metis
    then have "dropWhile isspace (s'' @ s') \<noteq> []"
      using ns58 by (auto simp: dropWhile_eq_Nil_conv)
    from label_part_leading [OF this] have m3: "matches label_part (s'' @ s') \<noteq> []" by auto
    have in_t: "drop i t = drop i u @ s'" using i_lt by (simp add: t_eq)
    have r3: "run name_prefix (drop i t) = Some (s'' @ s')"
      unfolding in_t by (rule run_append [OF separated_name_prefix r2])
    then have m4: "matches name_pattern (drop i t) \<noteq> []"
      using m3 by (simp add: matches_name_pattern)
    consider "i < k" | "i = k" | "k < i" by linarith
    then show False
    proof cases
      case 1
      with left m4 show False by blast
    next
      case 2
      with r r3 s''_ne show False by simp
    next
      case 3
      have len: "length (take k t) = k" using k by simp
      have "drop i u = drop (i - k) (81 # mid @ [58])"
        using 3 len by (simp add: u_def)
      also have "\<dots> = drop (i - k - 1) (mid @ [58])"
        using 3 by (cases "i - k") auto
      finally have "drop (i - k - 1) (mid @ [58]) = 81 # mid2 @ 58 # s''" using d2 by simp
      then have "81 \<in> set (drop (i - k - 1) (mid @ [58]))" by simp
      then have "81 \<in> set (mid @ [58])" by (rule in_set_dropD)
      with nq show False by simp
    qed
  qed
  have "re_search name_pattern (strip t) = None"
    unfolding strip_t dropWhile_eq_drop
    by (rule re_search_None) (simp add: no_match)
  then show ?thesis by (simp add: name_search_def)
qed

lemma blank_label_name_from:
  "name_search t = Some g \<Longrightarrow> strip g = [] \<Longrightarrow> name_from (Some t) name = name"
  by (simp add: name_from_def blank_label_no_trimmed_match)


text \<open>
  With the title "Questions 09/02: " the pattern matches and captures the label " ",
  which is empty after trimming; with the heading "Questions 09/02: Bob" the name of
  that document is "Bob", not "Unknown Student".
\<close>

theorem blank_title_label_h1_name:
  "name_search (lit ''Questions 09/02: '') = Some [32]
   \<and> strip [32] = []
   \<and> extract_name blank_title_doc = lit ''Bob''
   \<and> lit ''Bob'' \<noteq> lit ''Unknown Student''"
  by (simp add: blank_title_doc_def extract_name_def name_from_def unknown_student_def
        name_search_def name_pattern_def re_match_def lit_def strip_def isspace_def
        isdecimal_def decimal_blocks_def)

text \<open>
  C7. When the pattern matches the text of a tag with a label that is empty after
  trimming, that tag gives no name: the code trims the text before it searches, and the
  trimmed text does not match (\<open>blank_label_no_trimmed_match\<close>). The name is then what
  the other tag gives, and "Unknown Student" when the other tag is absent or gives
  none; the name is never the empty string.
\<close>

theorem blank_label_gives_no_name:
  assumes "name_search t = Some g" and "strip g = []"
  shows "(title doc = Some t \<longrightarrow> extract_name doc = name_from (h1 doc) unknown_student)
       \<and> (h1 doc = Some t \<longrightarrow> extract_name doc = name_from (title doc) unknown_student)
       \<and> (title doc = Some t \<and> (h1 doc = None \<or> h1 doc = Some t) \<longrightarrow>
            extract_name doc = lit ''Unknown Student'')
       \<and> (h1 doc = Some t \<and> title doc = None \<longrightarrow> extract_name doc = lit ''Unknown Student'')
       \<and> extract_name doc \<noteq> []"
proof -
  have none: "name_from (Some t) name = name" for name
    using assms by (rule blank_label_name_from)
  have 1: "extract_name doc = name_from (h1 doc) unknown_student" if "title doc = Some t"
    using that none by (simp add: extract_name_def)
  have 2: "extract_name doc = name_from (title doc) unknown_student" if "h1 doc = Some t"
    using that none by (simp add: extract_name_def Let_def)
  have 3: "extract_name doc = lit ''Unknown Student''"
    if "title doc = Some t" "h1 doc = None \<or> h1 doc = Some t"
    using that 1 none by (auto simp: name_from_def unknown_student_def)
  have 4: "extract_name doc = lit ''Unknown Student''" if "h1 doc = Some t" "title doc = None"
    using that 2 by (simp add: name_from_def unknown_student_def)
  show ?thesis
    using 1 2 3 4 extract_name_nonempty by blast
qed

theorem blank_label_gives_no_name_witness:
  "name_search (lit ''Questions 09/02: '') = Some [32]
   \<and> strip [32] = []
   \<and> title blank_title_doc = Some (lit ''Questions 09/02: '')
   \<and> extract_name blank_title_doc = name_from (h1 blank_title_doc) unknown_student
   \<and> name_from (h1 blank_title_doc) unknown_student = lit ''Bob''
   \<and> title blank_title_only_doc = Some (lit ''Questions 09/02: '')
   \<and> h1 blank_title_only_doc = None
   \<and> extract_name blank_title_only_doc = lit ''Unknown Student''
   \<and> h1 blank_h1_doc = Some (lit ''Questions 09/02: '')
   \<and> title blank_h1_doc = None
   \<and> extract_name blank_h1_doc = lit ''Unknown Student''"
proof -
  have m: "name_search (lit ''Questions 09/02: '') = Some [32]"
    by (simp add: name_search_def name_pattern_def re_match_def lit_def isspace_def
          isdecimal_def decimal_blocks_def)
  have b: "strip [32] = []"
    by (simp add: strip_def isspace_def)
  have bob: "name_from (h1 blank_title_doc) unknown_student = lit ''Bob''"
    by (simp add: blank_title_doc_def name_from_def
          name_search_def name_pattern_def re_match_def lit_def strip_def isspace_def
          isdecimal_def decimal_blocks_def)
  have t1: "title blank_title_doc = Some (lit ''Questions 09/02: '')"
    by (simp add: blank_title_doc_def)
  have t2: "title blank_title_only_doc = Some (lit ''Questions 09/02: '')"
    and h2: "h1 blank_title_only_doc = None"
    by (simp_all add: blank_title_only_doc_def)
  have h3: "h1 blank_h1_doc = Some (lit ''Questions 09/02: '')"
    and t3: "title blank_h1_doc = None"
    by (simp_all add: blank_h1_doc_def)
  from blank_label_gives_no_name [OF m b, of blank_title_doc] t1
  have e1: "extract_name blank_title_doc = name_from (h1 blank_title_doc) unknown_student"
    by blast
  from blank_label_gives_no_name [OF m b, of blank_title_only_doc] t2 h2
  have e2: "extract_name blank_title_only_doc = lit ''Unknown Student''"
    by blast
  from blank_label_gives_no_name [OF m b, of blank_h1_doc] h3 t3
  have e3: "extract_name blank_h1_doc = lit ''Unknown Student''"
    by blast
  show ?thesis
    using m b bob t1 t2 h2 h3 t3 e1 e2 e3 by (intro conjI)
qed

section \<open>Properties of the parser and of the batch runner\<close>

lemma print_accepts: "con out line = None \<Longrightarrow> print con line out = Inr (out @ [line])"
  by (simp add: print_def)

lemma print_Inr: "print con line out = Inr out' \<Longrightarrow> out' = out @ [line]"
  by (simp add: print_def split: option.splits)

lemma parse_html_file_read:
  "load path = Inr doc \<Longrightarrow>
   parse_html_file con load path out =
     Inr (\<lparr>student_name = extract_name doc,
           questions = extract_questions (content_div doc),
           file_path = path\<rparr>, out)"
  by (simp add: parse_html_file_def)

lemma parse_html_file_fault:
  "load path = Inl e \<Longrightarrow> con out (error_line path e) = None \<Longrightarrow>
   parse_html_file con load path out =
     Inr (\<lparr>student_name = lit ''Error parsing file'', questions = [], file_path = path\<rparr>,
          out @ [error_line path e])"
  by (simp add: parse_html_file_def print_accepts)

lemma parse_html_file_returns:
  "parse_html_file con load path out = Inr (r, out') \<Longrightarrow> r = parsed_record load path"
  by (auto simp: parse_html_file_def parsed_record_def split: sum.splits)


lemma file_path_record: "file_path (parsed_record load path) = path"
  by (simp add: parsed_record_def split: sum.splits)


lemma questions_record_nonempty: "[] \<notin> set (questions (parsed_record load path))"
  by (auto simp: parsed_record_def extract_questions_def paragraph_loop_nonempty
           split: sum.splits option.splits)





lemma extract_name_demo: "extract_name demo_doc = lit ''Jane Doe''"
  by (simp add: demo_doc_def extract_name_def name_from_def unknown_student_def
        name_search_def name_pattern_def re_match_def lit_def strip_def isspace_def
        isdecimal_def decimal_blocks_def)

lemma extract_questions_demo: "extract_questions (content_div demo_doc) = [lit ''Why?'']"
  by (simp add: demo_doc_def extract_questions_def lit_def strip_def isspace_def)


lemma demo_load_fault: "demo_load (lit ''docs/b.html'') = Inl (OSError (lit ''unreadable''))"
  by (simp add: demo_load_def)

lemma demo_load_read: "p \<noteq> lit ''docs/b.html'' \<Longrightarrow> demo_load p = Inr demo_doc"
  by (simp add: demo_load_def)

lemma demo_paths:
  "lit ''docs/a.htm'' \<noteq> lit ''docs/b.html''" "lit ''docs/c.html'' \<noteq> lit ''docs/b.html''"
  by (simp_all add: lit_def)


text \<open>
  C6. No entry of the questions of a record that \<open>parse_html_file\<close> returns is the empty
  string, whatever the document holds and also when reading it failed.
\<close>

theorem questions_never_empty:
  "parse_html_file con load path out = Inr (r, out') \<Longrightarrow> [] \<notin> set (questions r)"
  using parse_html_file_returns [of con load path out r out'] questions_record_nonempty
  by simp

theorem questions_never_empty_witness:
  "parse_html_file accepting_console demo_load (lit ''docs/a.htm'') []
     = Inr (\<lparr>student_name = lit ''Jane Doe'', questions = [lit ''Why?''],
             file_path = lit ''docs/a.htm''\<rparr>, [])
   \<and> [] \<notin> set (questions \<lparr>student_name = lit ''Jane Doe'', questions = [lit ''Why?''],
                            file_path = lit ''docs/a.htm''\<rparr>)
   \<and> parse_html_file accepting_console demo_load (lit ''docs/b.html'') []
     = Inr (\<lparr>student_name = lit ''Error parsing file'', questions = [],
             file_path = lit ''docs/b.html''\<rparr>,
            [lit ''Error parsing docs/b.html: unreadable''])
   \<and> [] \<notin> set (questions \<lparr>student_name = lit ''Error parsing file'', questions = [],
                            file_path = lit ''docs/b.html''\<rparr>)"
proof -
  have a: "parse_html_file accepting_console demo_load (lit ''docs/a.htm'') []
     = Inr (\<lparr>student_name = lit ''Jane Doe'', questions = [lit ''Why?''],
             file_path = lit ''docs/a.htm''\<rparr>, [])"
    using parse_html_file_read
      [where load = demo_load and path = "lit ''docs/a.htm''" and doc = demo_doc
        and con = accepting_console and out = "[]"]
      demo_load_read [OF demo_paths(1)]
    by (simp add: extract_name_demo extract_questions_demo)
  have b: "parse_html_file accepting_console demo_load (lit ''docs/b.html'') []
     = Inr (\<lparr>student_name = lit ''Error parsing file'', questions = [],
             file_path = lit ''docs/b.html''\<rparr>,
            [lit ''Error parsing docs/b.html: unreadable''])"
    using parse_html_file_fault
      [where load = demo_load and path = "lit ''docs/b.html''"
        and e = "OSError (lit ''unreadable'')" and con = accepting_console and out = "[]"]
      demo_load_fault
    by (simp add: accepting_console_def error_line_def lit_def)
  show ?thesis
    using questions_never_empty [OF a] questions_never_empty [OF b] a b by simp
qed

text \<open>
  C10. A record that \<open>parse_html_file\<close> returns for a path carries that path in
  \<open>file_path\<close>: the record of a document that was read, and the record returned after an
  exception of the \<open>try\<close> block, alike.
\<close>

theorem file_path_preserved:
  "(parse_html_file con load path out = Inr (r, out') \<longrightarrow> file_path r = path)
   \<and> (load path = Inr doc \<longrightarrow>
        parse_html_file con load path out =
          Inr (\<lparr>student_name = extract_name doc,
                questions = extract_questions (content_div doc),
                file_path = path\<rparr>, out))
   \<and> (load path = Inl e \<and> con out (error_line path e) = None \<longrightarrow>
        parse_html_file con load path out =
          Inr (\<lparr>student_name = lit ''Error parsing file'', questions = [],
                file_path = path\<rparr>, out @ [error_line path e]))"
  using parse_html_file_returns [of con load path out r out'] file_path_record [of load path]
  by (auto simp: parse_html_file_read parse_html_file_fault)

theorem file_path_preserved_witness:
  "demo_load (lit ''docs/a.htm'') = Inr demo_doc
   \<and> parse_html_file accepting_console demo_load (lit ''docs/a.htm'') []
     = Inr (\<lparr>student_name = lit ''Jane Doe'', questions = [lit ''Why?''],
             file_path = lit ''docs/a.htm''\<rparr>, [])
   \<and> demo_load (lit ''docs/b.html'') = Inl (OSError (lit ''unreadable''))
   \<and> accepting_console []
        (error_line (lit ''docs/b.html'') (OSError (lit ''unreadable''))) = None
   \<and> parse_html_file accepting_console demo_load (lit ''docs/b.html'') []
     = Inr (\<lparr>student_name = lit ''Error parsing file'', questions = [],
             file_path = lit ''docs/b.html''\<rparr>,
            [error_line (lit ''docs/b.html'') (OSError (lit ''unreadable''))])
   \<and> file_path \<lparr>student_name = lit ''Jane Doe'', questions = [lit ''Why?''],
                 file_path = lit ''docs/a.htm''\<rparr> = lit ''docs/a.htm''"
proof -
  have a: "demo_load (lit ''docs/a.htm'') = Inr demo_doc"
    by (rule demo_load_read [OF demo_paths(1)])
  have c: "accepting_console []
        (error_line (lit ''docs/b.html'') (OSError (lit ''unreadable''))) = None"
    by (simp add: accepting_console_def)
  show ?thesis
    using file_path_preserved [where con = accepting_console and load = demo_load
        and path = "lit ''docs/a.htm''" and out = "[]" and doc = demo_doc]
      file_path_preserved [where con = accepting_console and load = demo_load
        and path = "lit ''docs/b.html''" and out = "[]" and e = "OSError (lit ''unreadable'')"]
      a c demo_load_fault
    by (simp add: extract_name_demo extract_questions_demo)
qed







section \<open>Properties of the report\<close>

lemma rstrip_Nil [simp]: "rstrip [] = []"
  by (simp add: rstrip_def)

lemma strip_rstrip: "strip s = rstrip (dropWhile isspace s)"
  by (simp add: strip_def rstrip_def)

lemma rstrip_Nil_iff: "rstrip s = [] \<longleftrightarrow> (\<forall>c\<in>set s. isspace c)"
  by (simp add: rstrip_def)

lemma rstrip_Cons:
  "rstrip (c # cs) = (if isspace c \<and> rstrip cs = [] then [] else c # rstrip cs)"
proof (cases "\<forall>x\<in>set cs. isspace x")
  case True
  then show ?thesis
    by (simp add: rstrip_def dropWhile_append)
next
  case False
  then show ?thesis
    by (auto simp add: rstrip_def dropWhile_append)
qed

lemma dropWhile_rstrip: "dropWhile isspace (rstrip s) = rstrip (dropWhile isspace s)"
  by (induction s) (auto simp: rstrip_Cons)

lemma split_scan_Nil_iff:
  "split_scan cur s = [] \<longleftrightarrow> cur = [] \<and> (\<forall>c\<in>set s. isspace c)"
  by (induction cur s rule: split_scan.induct) auto

lemma join_Cons: "join sep (x # xs) = x @ (if xs = [] then [] else sep @ join sep xs)"
  by (cases xs) auto

lemma collapse_dropWhile_rstrip:
  "isspace c \<Longrightarrow> rstrip cs \<noteq> [] \<Longrightarrow>
   collapse (c # rstrip cs) = 32 # collapse (rstrip (dropWhile isspace cs))"
  by (simp add: dropWhile_rstrip)

lemma join_split_scan:
  "join [32] (split_scan cur s) =
     (if cur = [] then collapse (rstrip (dropWhile isspace s)) else cur @ collapse (rstrip s))"
proof (induction s arbitrary: cur)
  case Nil
  show ?case by (simp add: rstrip_def)
next
  case (Cons c cs)
  show ?case
  proof (cases "isspace c")
    case True
    show ?thesis
    proof (cases "cur = []")
      case True
      with \<open>isspace c\<close> Cons.IH [of "[]"] show ?thesis by simp
    next
      case False
      show ?thesis
      proof (cases "rstrip cs = []")
        case True
        then have "split_scan [] cs = []"
          by (simp add: split_scan_Nil_iff rstrip_Nil_iff)
        with True \<open>isspace c\<close> \<open>cur \<noteq> []\<close> show ?thesis
          by (simp add: rstrip_Cons)
      next
        case nonblank: False
        then have "split_scan [] cs \<noteq> []"
          by (simp add: split_scan_Nil_iff rstrip_Nil_iff)
        with nonblank \<open>isspace c\<close> \<open>cur \<noteq> []\<close> Cons.IH [of "[]"] show ?thesis
          by (simp add: rstrip_Cons join_Cons dropWhile_rstrip)
      qed
    qed
  next
    case False
    with Cons.IH [of "cur @ [c]"] show ?thesis
      by (simp add: rstrip_Cons)
  qed
qed

lemma clean_question_normalize: "join (lit '' '') (split q) = spec_normalize q"
  by (simp add: split_def spec_normalize_def lit_space join_split_scan strip_rstrip)

lemma question_loop_lines:
  "question_loop i qs out =
     out @ map (\<lambda>k. spec_question_line (i + k) (qs ! k)) [0..<length qs]"
proof (induction qs arbitrary: i out)
  case Nil
  show ?case by simp
next
  case (Cons q qs)
  have "map (\<lambda>k. spec_question_line (i + k) ((q # qs) ! k)) [0..<length (q # qs)]
      = spec_question_line i q # map (\<lambda>k. spec_question_line (Suc i + k) (qs ! k)) [0..<length qs]"
    by (simp add: upt_conv_Cons map_Suc_upt [symmetric] del: upt_Suc)
  then show ?case
    by (simp add: Cons.IH Let_def clean_question_normalize spec_question_line_def del: upt_Suc)
qed

lemma result_loop_blocks: "result_loop rs out = out @ concat (map spec_block rs)"
  by (induction rs arbitrary: out) (simp_all add: question_loop_lines spec_block_def)


text \<open>
  C5. The report is the report of the specification: for each record in order the line
  "- name", then for the question at position i, counted from 1, the line
  "    - Question i: " followed by the question trimmed and with every run of whitespace
  replaced by one space, then an empty line; all lines joined by newlines. A question
  "line one", newline, "   line two" is rendered as "line one line two".
\<close>

theorem format_output_spec:
  "format_output ds = spec_format ds \<and>
   format_output [demo_result]
     = lit ''- Jane Doe'' @ [10] @ lit ''    - Question 1: line one line two'' @ [10]"
proof
  show "format_output ds = spec_format ds"
    by (simp add: format_output_def spec_format_def result_loop_blocks)
  show "format_output [demo_result]
     = lit ''- Jane Doe'' @ [10] @ lit ''    - Question 1: line one line two'' @ [10]"
    by (simp add: demo_result_def format_output_def split_def lit_def isspace_def str_nat.simps Let_def)
qed


text \<open>
  C8. A document without a \<open>div\<close>, or whose first \<open>div\<close> has no paragraph, is parsed
  to a record without questions, and the block of that record in the report is the
  line of its name followed by an empty line: within any batch, and as the whole
  report "- name" and a newline when it is alone.
\<close>

theorem no_paragraphs_no_questions:
  assumes "load path = Inr doc"
    and "content_div doc = None \<or> content_div doc = Some []"
  shows "parse_html_file con load path out =
           Inr (\<lparr>student_name = extract_name doc, questions = [], file_path = path\<rparr>, out)
     \<and> result_loop
         (rs1 @ \<lparr>student_name = extract_name doc, questions = [], file_path = path\<rparr> # rs2) []
         = result_loop rs1 [] @ [lit ''- '' @ extract_name doc, []] @ result_loop rs2 []
     \<and> format_output [\<lparr>student_name = extract_name doc, questions = [], file_path = path\<rparr>]
         = lit ''- '' @ extract_name doc @ [10]"
proof -
  have q: "extract_questions (content_div doc) = []"
    using assms(2) by (auto simp: extract_questions_def strip_def)
  have p: "parse_html_file con load path out =
      Inr (\<lparr>student_name = extract_name doc, questions = [], file_path = path\<rparr>, out)"
    using assms(1) q by (simp add: parse_html_file_read)
  have b: "spec_block \<lparr>student_name = extract_name doc, questions = [], file_path = path\<rparr>
      = [lit ''- '' @ extract_name doc, []]"
    by (simp add: spec_block_def)
  show ?thesis
    by (simp add: p format_output_def result_loop_blocks b)
qed

theorem no_paragraphs_no_questions_witness:
  "empty_div_load (lit ''a.html'') = Inr empty_div_doc
   \<and> content_div empty_div_doc = Some []
   \<and> parse_html_file accepting_console empty_div_load (lit ''a.html'') []
       = Inr (\<lparr>student_name = lit ''Jane Doe'', questions = [],
               file_path = lit ''a.html''\<rparr>, [])
   \<and> format_output [\<lparr>student_name = lit ''Jane Doe'', questions = [],
                      file_path = lit ''a.html''\<rparr>]
       = lit ''- Jane Doe'' @ [10]
   \<and> content_div no_div_doc = None
   \<and> parse_html_file accepting_console (\<lambda>p. Inr no_div_doc) (lit ''b.html'') []
       = Inr (\<lparr>student_name = lit ''Jane Doe'', questions = [],
               file_path = lit ''b.html''\<rparr>, [])"
proof -
  have l: "empty_div_load (lit ''a.html'') = Inr empty_div_doc"
    by (simp add: empty_div_load_def)
  have c: "content_div empty_div_doc = Some []"
    by (simp add: empty_div_doc_def)
  then have c': "content_div empty_div_doc = None \<or> content_div empty_div_doc = Some []"
    by simp
  have d: "content_div no_div_doc = None"
    by (simp add: no_div_doc_def)
  then have d': "content_div no_div_doc = None \<or> content_div no_div_doc = Some []"
    by simp
  have m: "(\<lambda>p. Inr no_div_doc) (lit ''b.html'') = (Inr no_div_doc :: exn + document)"
    by simp
  have n: "extract_name empty_div_doc = lit ''Jane Doe''"
    by (simp add: empty_div_doc_def extract_name_def name_from_def unknown_student_def
        name_search_def name_pattern_def re_match_def lit_def strip_def isspace_def
        isdecimal_def decimal_blocks_def)
  have n': "extract_name no_div_doc = lit ''Jane Doe''"
    by (simp add: no_div_doc_def extract_name_def name_from_def unknown_student_def
        name_search_def name_pattern_def re_match_def lit_def strip_def isspace_def
        isdecimal_def decimal_blocks_def)
  show ?thesis
    using no_paragraphs_no_questions [where load = empty_div_load and path = "lit ''a.html''"
        and doc = empty_div_doc and con = accepting_console and out = "[]"
        and ?rs1.0 = "[]" and ?rs2.0 = "[]", OF l c']
      no_paragraphs_no_questions [where load = "\<lambda>p. Inr no_div_doc"
        and path = "lit ''b.html''" and doc = no_div_doc and con = accepting_console
        and out = "[]", OF m d'] l c d n n'
    by (simp add: lit_def)
qed

text \<open>
  C9. The report is determined by the names and the questions of the records, in their
  order: two batch results that agree on them give the same text, whatever else
  differs. In particular the same batch result, formatted twice, gives the same text.
\<close>

theorem format_output_deterministic:
  assumes "map student_name rs' = map student_name rs"
    and "map questions rs' = map questions rs"
  shows "format_output rs' = format_output rs"
proof -
  have "map spec_block rs' = map spec_block rs"
  proof (rule nth_equalityI)
    show "length (map spec_block rs') = length (map spec_block rs)"
      using assms(1) by (metis length_map)
    fix i assume "i < length (map spec_block rs')"
    then have i: "i < length rs'" "i < length rs"
      using assms(1) by (simp, metis length_map)
    have "student_name (rs' ! i) = student_name (rs ! i)"
      using assms(1) i by (metis nth_map)
    moreover have "questions (rs' ! i) = questions (rs ! i)"
      using assms(2) i by (metis nth_map)
    ultimately show "map spec_block rs' ! i = map spec_block rs ! i"
      using i by (simp add: spec_block_def)
  qed
  then show ?thesis
    by (simp add: format_output_def result_loop_blocks)
qed

theorem format_output_deterministic_witness:
  "map student_name batch_there = map student_name batch_here
   \<and> map questions batch_there = map questions batch_here
   \<and> batch_there \<noteq> batch_here
   \<and> format_output batch_there = format_output batch_here
   \<and> format_output batch_here = lit ''- Ann'' @ [10] @ lit ''    - Question 1: Why?'' @ [10]"
proof -
  have n: "map student_name batch_there = map student_name batch_here"
    and q: "map questions batch_there = map questions batch_here"
    by (simp_all add: batch_there_def batch_here_def)
  have d: "batch_there \<noteq> batch_here"
    by (simp add: batch_there_def batch_here_def lit_def)
  have e: "format_output batch_here
      = lit ''- Ann'' @ [10] @ lit ''    - Question 1: Why?'' @ [10]"
    by (simp add: batch_here_def format_output_def split_def lit_def isspace_def
          str_nat.simps Let_def)
  show ?thesis
    using format_output_deterministic [OF n q] n q d e by simp
qed

end
